theory Spec2Isabelle
  imports Main
begin

section \<open>Python values used by the tree engine\<close>

text \<open>
  The exceptions that the modelled code can raise. None of them is caught anywhere in
  the repository, so a raise is the value \<open>Inl e\<close> of the function that raises and of
  every caller.
\<close>

datatype py_error = ValueError | IndexError | KeyError | StopIteration | AttributeError | OSError

text \<open>
  A Python \<open>dict\<close> keeps its keys in insertion order. It is modelled as an association
  list; storing under a key that is present replaces the value where the key stands,
  storing under a new key appends.
\<close>

type_synonym ('k, 'v) py_dict = "('k \<times> 'v) list"

fun dict_setitem :: "('k, 'v) py_dict \<Rightarrow> 'k \<Rightarrow> 'v \<Rightarrow> ('k, 'v) py_dict" where
  "dict_setitem [] k v = [(k, v)]"
| "dict_setitem ((k', v') # d) k v =
     (if k' = k then (k', v) # d else (k', v') # dict_setitem d k v)"

text \<open>
  Text is a list of characters. The code only splits at, joins with and compares for
  the ASCII characters \<open>,\<close> and \<open>=\<close>, and tests prefixes, so the model does not depend on
  how characters beyond ASCII are encoded.

  \<open>str.split(sep)\<close> for a separator of one character: one piece more than separators.
\<close>

fun split_chr :: "char \<Rightarrow> string \<Rightarrow> string list" where
  "split_chr c [] = [[]]"
| "split_chr c (x # xs) =
     (if x = c then [] # split_chr c xs
      else (case split_chr c xs of [] \<Rightarrow> [[x]] | w # ws \<Rightarrow> (x # w) # ws))"

text \<open>\<open>sep.join(pieces)\<close>.\<close>

fun join_str :: "string \<Rightarrow> string list \<Rightarrow> string" where
  "join_str sep [] = []"
| "join_str sep [w] = w"
| "join_str sep (w # v # ws) = w @ sep @ join_str sep (v # ws)"

text \<open>\<open>text.startswith(p)\<close>.\<close>

definition startswith :: "string \<Rightarrow> string \<Rightarrow> bool" where
  "startswith txt p = (take (length p) txt = p)"

section \<open>NodeIdentifier\<close>

type_synonym NodeIdentifier = "(string, string) py_dict"

text \<open>
  \<open>dict(seq)\<close> on a sequence of lists: every element must have exactly two items, or
  \<open>ValueError\<close> is raised; the pairs are stored one after the other.
\<close>

fun dict_of_seq :: "NodeIdentifier \<Rightarrow> string list list \<Rightarrow> py_error + NodeIdentifier" where
  "dict_of_seq d [] = Inr d"
| "dict_of_seq d ([k, v] # es) = dict_of_seq (dict_setitem d k v) es"
| "dict_of_seq d (e # es) = Inl ValueError"

text \<open>\<open>dict(kv.split("=") for kv in identifier.split(","))\<close>\<close>

definition parse_identifier :: "string \<Rightarrow> py_error + NodeIdentifier" where
  "parse_identifier identifier =
     dict_of_seq [] (map (split_chr CHR ''='') (split_chr CHR '','' identifier))"

text \<open>The f-string \<open>f"{k}={v}"\<close>.\<close>

definition kv_str :: "string \<times> string \<Rightarrow> string" where
  "kv_str p = fst p @ ''='' @ snd p"

text \<open>\<open>NodeIdentifier.__str__\<close>\<close>

definition NodeIdentifier_str :: "NodeIdentifier \<Rightarrow> string" where
  "NodeIdentifier_str d = join_str '','' (map kv_str d)"

text \<open>
  \<open>NodeIdentifier.__eq__\<close> is \<open>==\<close> of two dicts: the same number of keys, and every
  key of the left one is in the right one with an equal value.
\<close>

definition NodeIdentifier_eq :: "NodeIdentifier \<Rightarrow> NodeIdentifier \<Rightarrow> bool" where
  "NodeIdentifier_eq a b =
     (length a = length b \<and> list_all (\<lambda>(k, v). map_of b k = Some v) a)"

text \<open>
  \<open>get_current_level_identifier\<close>: \<open>list(keys)[-1]\<close> raises \<open>IndexError\<close> on an empty
  dict; the value is then read under that key.
\<close>

definition get_current_level_identifier :: "NodeIdentifier \<Rightarrow> py_error + string" where
  "get_current_level_identifier d =
     (if d = [] then Inl IndexError
      else (let last_key = fst (last d)
            in case map_of d last_key of
                 None \<Rightarrow> Inl KeyError
               | Some v \<Rightarrow> Inr (kv_str (last_key, v))))"

text \<open>
  What every Python dict satisfies: its keys are pairwise distinct. An association list
  stands for a dict only when this holds.
\<close>

definition is_dict :: "('k, 'v) py_dict \<Rightarrow> bool" where
  "is_dict d = distinct (map fst d)"

text \<open>
  Splitting one segment at its first \<open>=\<close>: the key before it, the value after it.
\<close>

definition segment_pair :: "string \<Rightarrow> string \<times> string" where
  "segment_pair s =
     (takeWhile (\<lambda>x. x \<noteq> CHR ''='') s, tl (dropWhile (\<lambda>x. x \<noteq> CHR ''='') s))"

section \<open>TreeNode\<close>

text \<open>
  A node owns its children. \<open>uid\<close> is the \<open>uuid4()\<close> drawn by the constructor; the
  model takes it as an argument of the operations that build a node. The payload type
  is left open.
\<close>

datatype 'd TreeNode =
  TreeNode (uid: nat) (data: 'd) (children: "'d TreeNode list") (node_identifier: NodeIdentifier)

text \<open>\<open>TreeNode.__init__\<close>: parses the identifier text, no children.\<close>

definition TreeNode_init :: "nat \<Rightarrow> 'd \<Rightarrow> string \<Rightarrow> py_error + 'd TreeNode" where
  "TreeNode_init u dt identifier =
     (case parse_identifier identifier of
        Inl e \<Rightarrow> Inl e
      | Inr d \<Rightarrow> Inr (TreeNode u dt [] d))"

text \<open>
  \<open>is_valid_new_node_identifier\<close>: \<open>next(iter(...))\<close> raises \<open>StopIteration\<close> on an
  empty identifier.
\<close>

definition is_valid_new_node_identifier :: "'d TreeNode \<Rightarrow> string \<Rightarrow> py_error + bool" where
  "is_valid_new_node_identifier self new_node_identifier =
     (case node_identifier self of
        [] \<Rightarrow> Inl StopIteration
      | (root_key, _) # _ \<Rightarrow> Inr (startswith new_node_identifier (root_key @ ''='')))"

definition add_child :: "'d TreeNode \<Rightarrow> 'd TreeNode \<Rightarrow> 'd TreeNode" where
  "add_child child_node self =
     TreeNode (uid self) (data self) (children self @ [child_node]) (node_identifier self)"

fun extract_node_identifiers :: "'d TreeNode \<Rightarrow> NodeIdentifier list" where
  "extract_node_identifiers (TreeNode u dt cs nid) =
     nid # concat (map extract_node_identifiers cs)"

record 'd beauty =
  b_id :: nat
  b_data :: 'd
  b_node_id :: NodeIdentifier

definition beauty_dict :: "'d TreeNode \<Rightarrow> 'd beauty" where
  "beauty_dict self = \<lparr>b_id = uid self, b_data = data self, b_node_id = node_identifier self\<rparr>"

fun get_all_children :: "'d TreeNode \<Rightarrow> 'd beauty list" where
  "get_all_children (TreeNode u dt cs nid) =
     beauty_dict (TreeNode u dt cs nid) # concat (map get_all_children cs)"

text \<open>
  The test of \<open>_search\<close>: \<open>all(self.node_identifier.get(k) == v for k, v in query)\<close>.
\<close>

definition query_matches :: "NodeIdentifier \<Rightarrow> NodeIdentifier \<Rightarrow> bool" where
  "query_matches query_dict nid = list_all (\<lambda>(k, v). map_of nid k = Some v) query_dict"

text \<open>\<open>_search\<close>: the node itself, then the children from left to right.\<close>

fun search :: "NodeIdentifier \<Rightarrow> 'd TreeNode \<Rightarrow> 'd TreeNode option"
  and search_children :: "NodeIdentifier \<Rightarrow> 'd TreeNode list \<Rightarrow> 'd TreeNode option" where
  "search query_dict (TreeNode u dt cs nid) =
     (if query_matches query_dict nid then Some (TreeNode u dt cs nid)
      else search_children query_dict cs)"
| "search_children query_dict [] = None"
| "search_children query_dict (child # cs) =
     (case search query_dict child of
        Some result \<Rightarrow> Some result
      | None \<Rightarrow> search_children query_dict cs)"

definition find_by_query :: "'d TreeNode \<Rightarrow> string \<Rightarrow> py_error + 'd TreeNode option" where
  "find_by_query self query =
     (case parse_identifier query of
        Inl e \<Rightarrow> Inl e
      | Inr node_idx \<Rightarrow> Inr (search node_idx self))"

text \<open>
  Python hands out the node that \<open>_search\<close> found by reference, and \<open>update_node\<close> and
  \<open>insert_node\<close> then change that object. A reference is modelled by the position of
  the node: the list of child indices that leads to it from the root. \<open>search_path\<close>
  follows \<open>_search\<close> step by step and returns the position of the node that \<open>search\<close>
  returns (lemma \<open>search_path_agrees\<close>). \<open>node_at\<close> reads and \<open>modify_at\<close> changes the
  node at a position; a position outside the tree, which \<open>search_path\<close> never returns,
  reads as \<open>None\<close> and changes nothing.
\<close>

fun search_path :: "NodeIdentifier \<Rightarrow> 'd TreeNode \<Rightarrow> nat list option"
  and search_path_children :: "NodeIdentifier \<Rightarrow> nat \<Rightarrow> 'd TreeNode list \<Rightarrow> nat list option" where
  "search_path query_dict (TreeNode u dt cs nid) =
     (if query_matches query_dict nid then Some []
      else search_path_children query_dict 0 cs)"
| "search_path_children query_dict i [] = None"
| "search_path_children query_dict i (child # cs) =
     (case search_path query_dict child of
        Some p \<Rightarrow> Some (i # p)
      | None \<Rightarrow> search_path_children query_dict (Suc i) cs)"

fun node_at :: "'d TreeNode \<Rightarrow> nat list \<Rightarrow> 'd TreeNode option" where
  "node_at t [] = Some t"
| "node_at t (i # p) =
     (if i < length (children t) then node_at (children t ! i) p else None)"

fun modify_at :: "('d TreeNode \<Rightarrow> 'd TreeNode) \<Rightarrow> nat list \<Rightarrow> 'd TreeNode \<Rightarrow> 'd TreeNode" where
  "modify_at f [] t = f t"
| "modify_at f (i # p) (TreeNode u dt cs nid) =
     (if i < length cs then TreeNode u dt (cs[i := modify_at f p (cs ! i)]) nid
      else TreeNode u dt cs nid)"

definition find_by_query_ref :: "'d TreeNode \<Rightarrow> string \<Rightarrow> py_error + nat list option" where
  "find_by_query_ref self query =
     (case parse_identifier query of
        Inl e \<Rightarrow> Inl e
      | Inr node_idx \<Rightarrow> Inr (search_path node_idx self))"

text \<open>
  The operations return the tree after the call together with Python's result
  \<open>(success, message)\<close>.
\<close>

definition update_node :: "'d TreeNode \<Rightarrow> string \<Rightarrow> 'd \<Rightarrow> py_error + ('d TreeNode \<times> bool \<times> string)" where
  "update_node self query new_data =
     (case find_by_query_ref self query of
        Inl e \<Rightarrow> Inl e
      | Inr (Some p) \<Rightarrow>
          Inr (modify_at (\<lambda>node. TreeNode (uid node) new_data (children node) (node_identifier node)) p self,
               True, ''Node updated successfully.'')
      | Inr None \<Rightarrow> Inr (self, False, ''Node not found.''))"

text \<open>
  The inner \<open>_delete_node(parent, query)\<close>, on the children of \<open>parent\<close>: the child's
  current-level identifier is computed first, then the query is parsed again.
\<close>

fun delete_node_inner :: "string \<Rightarrow> 'd TreeNode \<Rightarrow> py_error + ('d TreeNode \<times> bool)"
  and delete_node_loop :: "string \<Rightarrow> 'd TreeNode list \<Rightarrow> py_error + ('d TreeNode list \<times> bool)" where
  "delete_node_inner query (TreeNode u dt cs nid) =
     (case delete_node_loop query cs of
        Inl e \<Rightarrow> Inl e
      | Inr (cs', r) \<Rightarrow> Inr (TreeNode u dt cs' nid, r))"
| "delete_node_loop query [] = Inr ([], False)"
| "delete_node_loop query (child # cs) =
     (case get_current_level_identifier (node_identifier child) of
        Inl e \<Rightarrow> Inl e
      | Inr a \<Rightarrow>
         (case parse_identifier query of
            Inl e \<Rightarrow> Inl e
          | Inr qd \<Rightarrow>
             (case get_current_level_identifier qd of
                Inl e \<Rightarrow> Inl e
              | Inr b \<Rightarrow>
                 if a = b then Inr (cs, True)
                 else (case delete_node_inner query child of
                         Inl e \<Rightarrow> Inl e
                       | Inr (child', r) \<Rightarrow>
                           if r then Inr (child' # cs, True)
                           else (case delete_node_loop query cs of
                                   Inl e \<Rightarrow> Inl e
                                 | Inr (cs', r') \<Rightarrow> Inr (child' # cs', r'))))))"

definition delete_node :: "'d TreeNode \<Rightarrow> string \<Rightarrow> py_error + ('d TreeNode \<times> bool \<times> string)" where
  "delete_node self query =
     (case find_by_query self query of
        Inl e \<Rightarrow> Inl e
      | Inr None \<Rightarrow> Inr (self, False, ''Node not found.'')
      | Inr (Some _) \<Rightarrow>
         (case delete_node_inner query self of
            Inl e \<Rightarrow> Inl e
          | Inr (self', r) \<Rightarrow>
              if r then Inr (self', True, ''Node deleted successfully.'')
              else Inr (self', False, ''Node not found.'')))"

text \<open>
  \<open>insert_node\<close>. The starred assignment
  \<open>(*parent_identifier_items, new_node_own_identifier) = items()\<close> raises \<open>ValueError\<close>
  on an empty sequence; \<open>x in list\<close> compares with \<open>==\<close>. The new node is built by the
  constructor from the text, with the fresh uuid \<open>u\<close>.
\<close>

definition insert_node :: "'d TreeNode \<Rightarrow> 'd \<Rightarrow> string \<Rightarrow> nat \<Rightarrow> py_error + ('d TreeNode \<times> bool \<times> string)" where
  "insert_node self new_node_data new_node_identifier u =
     (case is_valid_new_node_identifier self new_node_identifier of
        Inl e \<Rightarrow> Inl e
      | Inr valid \<Rightarrow>
         if \<not> valid then Inr (self, False, ''Invalid new node identifier.'')
         else (case parse_identifier new_node_identifier of
            Inl e \<Rightarrow> Inl e
          | Inr new_node_identifier_dict \<Rightarrow>
             if new_node_identifier_dict = [] then Inl ValueError
             else (let parent_identifier = join_str '','' (map kv_str (butlast new_node_identifier_dict))
               in case find_by_query_ref self parent_identifier of
                    Inl e \<Rightarrow> Inl e
                  | Inr None \<Rightarrow> Inr (self, False, ''Parent node not found.'')
                  | Inr (Some parent_node) \<Rightarrow>
                      if list_ex (NodeIdentifier_eq new_node_identifier_dict) (extract_node_identifiers self)
                      then Inr (self, False, ''A node with this identifier already exists.'')
                      else (case TreeNode_init u new_node_data new_node_identifier of
                              Inl e \<Rightarrow> Inl e
                            | Inr new_node \<Rightarrow>
                                Inr (modify_at (add_child new_node) parent_node self,
                                     True, ''Node inserted successfully.'')))))"

text \<open>
  \<open>get_tree_structure\<close> returns the list \<open>[]\<close> for a node without children and a dict
  otherwise. In \<open>node_dict[key] = value\<close> Python evaluates the value before the key.
\<close>

datatype tree_structure = EmptyList | Mapping "(string \<times> tree_structure) list"

fun get_tree_structure :: "'d TreeNode \<Rightarrow> py_error + tree_structure"
  and fill_node_dict :: "(string, tree_structure) py_dict \<Rightarrow> 'd TreeNode list \<Rightarrow> py_error + (string, tree_structure) py_dict" where
  "get_tree_structure (TreeNode u dt cs nid) =
     (if cs \<noteq> [] then (case fill_node_dict [] cs of Inl e \<Rightarrow> Inl e | Inr node_dict \<Rightarrow> Inr (Mapping node_dict))
      else Inr EmptyList)"
| "fill_node_dict node_dict [] = Inr node_dict"
| "fill_node_dict node_dict (child # cs) =
     (case get_tree_structure child of
        Inl e \<Rightarrow> Inl e
      | Inr v \<Rightarrow>
         (case get_current_level_identifier (node_identifier child) of
            Inl e \<Rightarrow> Inl e
          | Inr k \<Rightarrow> fill_node_dict (dict_setitem node_dict k v) cs))"

section \<open>TreeDataBase\<close>

text \<open>
  The store holds the root (\<open>None\<close> before initialisation) and the attribute \<open>db_path\<close>,
  which \<open>__init__\<close> does not set (\<open>None\<close> here: reading it raises \<open>AttributeError\<close>).
  The file system is a state of its own; \<open>open(filename, "wb")\<close> followed by
  \<open>pickle.dump(self.root, file)\<close> is the parameter \<open>w\<close>, which may fail.
\<close>

record 'd TreeDataBase =
  root :: "'d TreeNode option"
  db_path :: "string option"

type_synonym ('d, 'fs) writer = "string \<Rightarrow> 'd TreeNode option \<Rightarrow> 'fs \<Rightarrow> py_error + 'fs"

definition save_tree :: "('d, 'fs) writer \<Rightarrow> 'd TreeDataBase \<Rightarrow> string \<Rightarrow> 'fs \<Rightarrow> py_error + 'fs" where
  "save_tree w self filename fs = w filename (root self) fs"

definition save_cb :: "('d, 'fs) writer \<Rightarrow> 'd TreeDataBase \<Rightarrow> 'fs \<Rightarrow> py_error + 'fs" where
  "save_cb w self fs =
     (case db_path self of
        None \<Rightarrow> Inl AttributeError
      | Some p \<Rightarrow> if p \<noteq> [] then save_tree w self p fs else Inr fs)"

text \<open>
  \<open>if success and self.save_cb: self.save_cb()\<close>: a bound method is always true, so the
  test is \<open>success\<close> alone.
\<close>

definition after_mutation ::
  "('d, 'fs) writer \<Rightarrow> 'd TreeDataBase \<Rightarrow> 'fs \<Rightarrow> py_error + ('d TreeNode \<times> bool \<times> string)
     \<Rightarrow> py_error + ('d TreeDataBase \<times> 'fs \<times> bool \<times> string)" where
  "after_mutation w self fs res =
     (case res of
        Inl e \<Rightarrow> Inl e
      | Inr (r', success, message) \<Rightarrow>
          (let self' = self\<lparr>root := Some r'\<rparr>
           in if success
              then (case save_cb w self' fs of
                      Inl e \<Rightarrow> Inl e
                    | Inr fs' \<Rightarrow> Inr (self', fs', success, message))
              else Inr (self', fs, success, message)))"

definition db_insert ::
  "('d, 'fs) writer \<Rightarrow> 'd TreeDataBase \<Rightarrow> 'd \<Rightarrow> string \<Rightarrow> nat \<Rightarrow> 'fs
     \<Rightarrow> py_error + ('d TreeDataBase \<times> 'fs \<times> bool \<times> string)" where
  "db_insert w self new_node_data new_node_identifier u fs =
     (case root self of
        None \<Rightarrow> Inl AttributeError
      | Some r \<Rightarrow> after_mutation w self fs (insert_node r new_node_data new_node_identifier u))"

definition db_update ::
  "('d, 'fs) writer \<Rightarrow> 'd TreeDataBase \<Rightarrow> string \<Rightarrow> 'd \<Rightarrow> 'fs
     \<Rightarrow> py_error + ('d TreeDataBase \<times> 'fs \<times> bool \<times> string)" where
  "db_update w self query new_data fs =
     (case root self of
        None \<Rightarrow> Inl AttributeError
      | Some r \<Rightarrow> after_mutation w self fs (update_node r query new_data))"

definition db_delete ::
  "('d, 'fs) writer \<Rightarrow> 'd TreeDataBase \<Rightarrow> string \<Rightarrow> 'fs
     \<Rightarrow> py_error + ('d TreeDataBase \<times> 'fs \<times> bool \<times> string)" where
  "db_delete w self query fs =
     (case root self of
        None \<Rightarrow> Inl AttributeError
      | Some r \<Rightarrow> after_mutation w self fs (delete_node r query))"

definition db_query ::
  "'d TreeDataBase \<Rightarrow> string \<Rightarrow> 'fs \<Rightarrow> py_error + ('d TreeDataBase \<times> 'fs \<times> 'd TreeNode option)" where
  "db_query self query fs =
     (case root self of
        None \<Rightarrow> Inl AttributeError
      | Some r \<Rightarrow>
         (case find_by_query r query of
            Inl e \<Rightarrow> Inl e
          | Inr res \<Rightarrow> Inr (self, fs, res)))"

definition db_get_all_children :: "'d TreeDataBase \<Rightarrow> py_error + 'd beauty list" where
  "db_get_all_children self =
     (case root self of None \<Rightarrow> Inl AttributeError | Some r \<Rightarrow> Inr (get_all_children r))"

text \<open>
  The Initialized state of the store: a root is present and \<open>db_path\<close> holds the
  non-empty path given to \<open>create_tree_db\<close> or \<open>load_from_file\<close>.
\<close>

definition Initialized :: "'d TreeDataBase \<Rightarrow> bool" where
  "Initialized self = (root self \<noteq> None \<and> db_path self \<noteq> None \<and> db_path self \<noteq> Some [])"

section \<open>Notions of the specification\<close>

text \<open>Pre-order: the node, then the pre-order of each child from left to right.\<close>

fun preorder :: "'d TreeNode \<Rightarrow> 'd TreeNode list" where
  "preorder (TreeNode u dt cs nid) = TreeNode u dt cs nid # concat (map preorder cs)"


text \<open>
  The positions of all nodes below a list of children, in pre-order of the
  parent-child pairs; \<open>i\<close> is the index of the first child of the list.
\<close>

fun forest_paths :: "nat \<Rightarrow> 'd TreeNode list \<Rightarrow> nat list list" where
  "forest_paths i [] = []"
| "forest_paths i (TreeNode u dt cs nid # rest) =
     [i] # map ((#) i) (forest_paths 0 cs) @ forest_paths (Suc i) rest"

fun forest_at :: "'d TreeNode list \<Rightarrow> nat list \<Rightarrow> 'd TreeNode option" where
  "forest_at cs [] = None"
| "forest_at cs [i] = (if i < length cs then Some (cs ! i) else None)"
| "forest_at cs (i # p) = (if i < length cs then forest_at (children (cs ! i)) p else None)"

text \<open>Taking the child at a position out of its parent's list, with all below it.\<close>

fun forest_remove :: "nat list \<Rightarrow> 'd TreeNode list \<Rightarrow> 'd TreeNode list" where
  "forest_remove [] cs = cs"
| "forest_remove [i] cs = take i cs @ drop (Suc i) cs"
| "forest_remove (i # p) cs =
     (if i < length cs
      then cs[i := TreeNode (uid (cs ! i)) (data (cs ! i)) (forest_remove p (children (cs ! i)))
                     (node_identifier (cs ! i))]
      else cs)"

definition remove_at :: "nat list \<Rightarrow> 'd TreeNode \<Rightarrow> 'd TreeNode" where
  "remove_at p t = TreeNode (uid t) (data t) (forest_remove p (children t)) (node_identifier t)"

text \<open>
  A child is hit by a delete query when its current-level identifier is that of the
  query.
\<close>

definition hit :: "NodeIdentifier \<Rightarrow> 'd TreeNode list \<Rightarrow> nat list \<Rightarrow> bool" where
  "hit qd cs p =
     (case forest_at cs p of
        None \<Rightarrow> False
      | Some n \<Rightarrow> get_current_level_identifier (node_identifier n) = get_current_level_identifier qd)"

text \<open>Every node below the root carries a non-empty identifier, as the constructor ensures.\<close>

fun ids_nonempty :: "'d TreeNode list \<Rightarrow> bool" where
  "ids_nonempty [] = True"
| "ids_nonempty (TreeNode u dt cs nid # rest) = (nid \<noteq> [] \<and> ids_nonempty cs \<and> ids_nonempty rest)"

text \<open>A key or value free of both separators, as every parsed one is.\<close>

definition clean :: "string \<Rightarrow> bool" where
  "clean w = (CHR '','' \<notin> set w \<and> CHR ''='' \<notin> set w)"

text \<open>
  The position of the same node when one more child stands in front of the list.
\<close>

fun bump :: "nat list \<Rightarrow> nat list" where
  "bump [] = []"
| "bump (j # r) = Suc j # r"

section \<open>Splitting and joining text\<close>

lemma split_chr_nonempty: "split_chr c s \<noteq> []"
  by (induction s) (auto split: list.splits)

lemma join_split: "join_str [c] (split_chr c s) = s"
proof (induction s)
  case Nil show ?case by simp
next
  case (Cons x xs)
  obtain w ws where ws: "split_chr c xs = w # ws"
    using split_chr_nonempty[of c xs] by (cases "split_chr c xs") auto
  show ?case using Cons ws by (cases ws) auto
qed

lemma split_chr_notin: "c \<notin> set s \<Longrightarrow> split_chr c s = [s]"
  by (induction s) auto

lemma split_chr_append: "c \<notin> set a \<Longrightarrow> split_chr c (a @ c # b) = a # split_chr c b"
  by (induction a) auto

lemma split_chr_count: "length (split_chr c s) = Suc (count_list s c)"
  by (induction s) (auto split: list.splits simp: split_chr_nonempty)

lemma split_chr_two:
  assumes "length (split_chr c s) = 2"
  shows "split_chr c s = [takeWhile (\<lambda>x. x \<noteq> c) s, tl (dropWhile (\<lambda>x. x \<noteq> c) s)]"
  using assms
proof (induction s)
  case Nil then show ?case by simp
next
  case (Cons x xs)
  show ?case
  proof (cases "x = c")
    case True
    with Cons.prems have "length (split_chr c xs) = 1" by simp
    then obtain w where w: "split_chr c xs = [w]" by (cases "split_chr c xs") auto
    have "join_str [c] (split_chr c xs) = xs" by (rule join_split)
    with w have "w = xs" by simp
    with True w show ?thesis by simp
  next
    case False
    with Cons.prems have "length (split_chr c xs) = 2" by (auto split: list.splits)
    from Cons.IH[OF this] False show ?thesis by simp
  qed
qed

lemma dict_setitem_new: "k \<notin> fst ` set d \<Longrightarrow> dict_setitem d k v = d @ [(k, v)]"
  by (induction d) auto

lemma dict_of_seq_distinct:
  "distinct (map fst (d @ ps)) \<Longrightarrow> dict_of_seq d (map (\<lambda>p. [fst p, snd p]) ps) = Inr (d @ ps)"
proof (induction ps arbitrary: d)
  case Nil then show ?case by simp
next
  case (Cons p ps)
  have "fst p \<notin> fst ` set d" using Cons.prems by auto
  then have "dict_setitem d (fst p) (snd p) = d @ [p]" by (simp add: dict_setitem_new)
  moreover have "distinct (map fst ((d @ [p]) @ ps))" using Cons.prems by simp
  ultimately show ?case using Cons.IH[of "d @ [p]"] by simp
qed

lemma kv_str_segment_pair:
  assumes "CHR ''='' \<in> set s" shows "kv_str (segment_pair s) = s"
proof -
  have "dropWhile (\<lambda>x. x \<noteq> CHR ''='') s \<noteq> []" using assms by simp
  moreover have "hd (dropWhile (\<lambda>x. x \<noteq> CHR ''='') s) = CHR ''=''"
    using assms hd_dropWhile[of "\<lambda>x. x \<noteq> CHR ''=''" s] by simp
  ultimately have "dropWhile (\<lambda>x. x \<noteq> CHR ''='') s = CHR ''='' # tl (dropWhile (\<lambda>x. x \<noteq> CHR ''='') s)"
    by (cases "dropWhile (\<lambda>x. x \<noteq> CHR ''='') s") auto
  then have "takeWhile (\<lambda>x. x \<noteq> CHR ''='') s @ CHR ''='' # tl (dropWhile (\<lambda>x. x \<noteq> CHR ''='') s) = s"
    using takeWhile_dropWhile_id[of "\<lambda>x. x \<noteq> CHR ''=''" s] by simp
  then show ?thesis by (simp add: kv_str_def segment_pair_def)
qed

lemma split_eq_segment_pair:
  assumes "count_list s CHR ''='' = 1"
  shows "split_chr CHR ''='' s = [fst (segment_pair s), snd (segment_pair s)]"
proof -
  have "length (split_chr CHR ''='' s) = 2" using assms by (simp add: split_chr_count)
  from split_chr_two[OF this] show ?thesis by (simp add: segment_pair_def)
qed

lemma count_list_pos_mem: "count_list s c = Suc 0 \<Longrightarrow> c \<in> set s"
  by (metis count_list_0_iff zero_neq_one One_nat_def)

section \<open>Identifiers: parsing, rendering, equality\<close>

text \<open>
  C5 (as amended). For every identifier text in which each comma-separated segment
  holds exactly one equals sign and no two segments have the same key, parsing yields
  the pairs of the segments, one per segment and in the order of the text, and
  rendering these pairs again gives back the text.
\<close>

theorem parse_render_roundtrip:
  assumes segs: "\<forall>s \<in> set (split_chr CHR '','' itext). count_list s CHR ''='' = 1"
      and keys: "distinct (map (\<lambda>s. fst (segment_pair s)) (split_chr CHR '','' itext))"
  shows "parse_identifier itext = Inr (map segment_pair (split_chr CHR '','' itext))
       \<and> NodeIdentifier_str (map segment_pair (split_chr CHR '','' itext)) = itext"
proof -
  let ?S = "split_chr CHR '','' itext"
  have m: "map (split_chr CHR ''='') ?S = map (\<lambda>p. [fst p, snd p]) (map segment_pair ?S)"
    using segs by (simp add: split_eq_segment_pair)
  have "distinct (map fst ([] @ map segment_pair ?S))"
    using keys by (simp add: comp_def)
  from dict_of_seq_distinct[OF this]
  have p: "parse_identifier itext = Inr (map segment_pair ?S)"
    unfolding parse_identifier_def m by simp
  have "map kv_str (map segment_pair ?S) = ?S"
    using segs by (auto simp: map_idI kv_str_segment_pair count_list_pos_mem)
  then have "NodeIdentifier_str (map segment_pair ?S) = itext"
    using join_split [of "CHR '',''" itext] by (simp add: NodeIdentifier_str_def)
  with p show ?thesis by simp
qed

theorem parse_render_roundtrip_witness:
  "list_all (\<lambda>s. count_list s CHR ''='' = 1) (split_chr CHR '','' ''o=root,m=a'')
   \<and> distinct (map (\<lambda>s. fst (segment_pair s)) (split_chr CHR '','' ''o=root,m=a''))
   \<and> parse_identifier ''o=root,m=a'' = Inr [(''o'', ''root''), (''m'', ''a'')]
   \<and> NodeIdentifier_str [(''o'', ''root''), (''m'', ''a'')] = ''o=root,m=a''"
  using parse_render_roundtrip [of "''o=root,m=a''"]
  by (simp add: segment_pair_def)

text \<open>
  The claim as it was written fails where a key is repeated (the second value replaces
  the first, and one pair is left) and where a segment holds two equals signs (the
  parse raises).
\<close>

theorem parse_render_counterexample:
  "parse_identifier ''a=1,a=2'' = Inr [(''a'', ''2'')]
   \<and> NodeIdentifier_str [(''a'', ''2'')] = ''a=2''
   \<and> ''a=2'' \<noteq> ''a=1,a=2''
   \<and> parse_identifier ''a=b=c'' = Inl ValueError"
  by (simp add: parse_identifier_def NodeIdentifier_str_def kv_str_def)

text \<open>
  C2 (as amended). Two identifiers compare equal if and only if they hold the same
  (key, value) pairs, whatever the order of the pairs.
\<close>

theorem NodeIdentifier_eq_unordered:
  assumes "is_dict a" "is_dict b"
  shows "NodeIdentifier_eq a b \<longleftrightarrow> set a = set b"
proof
  assume eq: "NodeIdentifier_eq a b"
  have da: "distinct a" and db: "distinct b" using assms by (auto simp: is_dict_def distinct_map)
  have sub: "set a \<subseteq> set b"
    using eq by (auto simp: NodeIdentifier_eq_def list_all_iff dest: map_of_SomeD)
  have "card (set a) = card (set b)"
    using eq da db by (simp add: NodeIdentifier_eq_def distinct_card)
  with sub show "set a = set b" by (simp add: card_subset_eq)
next
  assume s: "set a = set b"
  have da: "distinct a" and db: "distinct b" using assms by (auto simp: is_dict_def distinct_map)
  have "length a = length b" using s da db by (metis distinct_card)
  moreover have "list_all (\<lambda>(k, v). map_of b k = Some v) a"
    using s assms(2) by (auto simp: list_all_iff is_dict_def)
  ultimately show "NodeIdentifier_eq a b" by (simp add: NodeIdentifier_eq_def)
qed

theorem NodeIdentifier_eq_unordered_witness:
  "is_dict [(''a'', ''1''), (''b'', ''2'')] \<and> is_dict [(''b'', ''2''), (''a'', ''1'')]
   \<and> NodeIdentifier_eq [(''a'', ''1''), (''b'', ''2'')] [(''b'', ''2''), (''a'', ''1'')]"
  using NodeIdentifier_eq_unordered [of "[(''a'', ''1''), (''b'', ''2'')]" "[(''b'', ''2''), (''a'', ''1'')]"]
  by (simp add: is_dict_def insert_commute)

text \<open>
  The claim as it was written fails on the same pairs in another order: the identifiers
  parsed from \<open>a=1,b=2\<close> and from \<open>b=2,a=1\<close> are different sequences and compare equal.
\<close>

theorem NodeIdentifier_eq_counterexample:
  "parse_identifier ''a=1,b=2'' = Inr [(''a'', ''1''), (''b'', ''2'')]
   \<and> parse_identifier ''b=2,a=1'' = Inr [(''b'', ''2''), (''a'', ''1'')]
   \<and> [(''a'', ''1''), (''b'', ''2'')] \<noteq> [(''b'', ''2''), (''a'', ''1'')]
   \<and> NodeIdentifier_eq [(''a'', ''1''), (''b'', ''2'')] [(''b'', ''2''), (''a'', ''1'')]"
  by (simp add: parse_identifier_def NodeIdentifier_eq_def)

section \<open>Searching the tree\<close>

lemma find_append_opt:
  "List.find P (xs @ ys) = (case List.find P xs of Some x \<Rightarrow> Some x | None \<Rightarrow> List.find P ys)"
  by (induction xs) auto

lemma search_find_both:
  "search q (t::'d TreeNode) = List.find (\<lambda>n. query_matches q (node_identifier n)) (preorder t)"
  "search_children q (cs::'d TreeNode list) = List.find (\<lambda>n. query_matches q (node_identifier n)) (concat (map preorder cs))"
proof (induction q t and q cs rule: search_search_children.induct)
  case (1 q u dt cs nid)
  then show ?case by simp
next
  case (2 q)
  then show ?case by simp
next
  case (3 q child cs)
  then show ?case by (simp add: find_append_opt split: option.splits)
qed




section \<open>Text that does not parse\<close>

lemma dict_of_seq_no_eq:
  assumes "\<exists>s \<in> set segs. CHR ''='' \<notin> set s"
  shows "dict_of_seq d (map (split_chr CHR ''='') segs) = Inl ValueError"
  using assms
proof (induction segs arbitrary: d)
  case Nil then show ?case by simp
next
  case (Cons s segs)
  show ?case
  proof (cases "CHR ''='' \<in> set s")
    case False
    then have "split_chr CHR ''='' s = [s]" by (induction s) auto
    then show ?thesis by simp
  next
    case True
    with Cons.prems have "\<exists>s \<in> set segs. CHR ''='' \<notin> set s" by auto
    from Cons.IH[OF this] show ?thesis
      by (cases "(d, split_chr CHR ''='' s # map (split_chr CHR ''='') segs)" rule: dict_of_seq.cases) auto
  qed
qed

lemma parse_no_eq:
  "\<exists>s \<in> set (split_chr CHR '','' itext). CHR ''='' \<notin> set s \<Longrightarrow> parse_identifier itext = Inl ValueError"
  by (simp add: parse_identifier_def dict_of_seq_no_eq)

text \<open>
  C7 (as amended). For every identifier text with a segment that holds no equals sign,
  parsing raises \<open>ValueError\<close>, and the exception reaches the caller: query, update and
  delete raise it, on the node and on the store; insert raises it when the text starts
  with the root's first key and an equals sign, and otherwise returns the failure
  result "Invalid new node identifier." without parsing.
\<close>

theorem parse_error_propagates:
  assumes "\<exists>s \<in> set (split_chr CHR '','' q). CHR ''='' \<notin> set s"
  shows "parse_identifier q = Inl ValueError
       \<and> find_by_query t q = Inl ValueError
       \<and> update_node t q nd = Inl ValueError
       \<and> delete_node t q = Inl ValueError
       \<and> insert_node t nd q u =
            (case is_valid_new_node_identifier t q of
               Inl e \<Rightarrow> Inl e
             | Inr valid \<Rightarrow> if valid then Inl ValueError
                             else Inr (t, False, ''Invalid new node identifier.''))
       \<and> db_query \<lparr>root = Some t, db_path = dp\<rparr> q fs = Inl ValueError
       \<and> db_update w \<lparr>root = Some t, db_path = dp\<rparr> q nd fs = Inl ValueError
       \<and> db_delete w \<lparr>root = Some t, db_path = dp\<rparr> q fs = Inl ValueError"
proof -
  have p: "parse_identifier q = Inl ValueError" using assms by (rule parse_no_eq)
  have f: "find_by_query t q = Inl ValueError" by (simp add: find_by_query_def p)
  have u: "update_node t q nd = Inl ValueError" by (simp add: update_node_def find_by_query_ref_def p)
  have d: "delete_node t q = Inl ValueError" by (simp add: delete_node_def f)
  have i: "insert_node t nd q u =
            (case is_valid_new_node_identifier t q of
               Inl e \<Rightarrow> Inl e
             | Inr valid \<Rightarrow> if valid then Inl ValueError
                             else Inr (t, False, ''Invalid new node identifier.''))"
    by (simp add: insert_node_def p split: sum.splits)
  have dq: "db_query \<lparr>root = Some t, db_path = dp\<rparr> q fs = Inl ValueError"
    by (simp add: db_query_def f)
  have du: "db_update w \<lparr>root = Some t, db_path = dp\<rparr> q nd fs = Inl ValueError"
    by (simp add: db_update_def after_mutation_def u)
  have dd: "db_delete w \<lparr>root = Some t, db_path = dp\<rparr> q fs = Inl ValueError"
    by (simp add: db_delete_def after_mutation_def d)
  from p f u d i dq du dd show ?thesis by blast
qed

theorem parse_error_propagates_witness:
  "list_ex (\<lambda>s. CHR ''='' \<notin> set s) (split_chr CHR '','' ''o=root,m'')
   \<and> parse_identifier ''o=root,m'' = Inl ValueError
   \<and> find_by_query (TreeNode 0 () [] [(''o'', ''root'')]) ''o=root,m'' = Inl ValueError
   \<and> update_node (TreeNode 0 () [] [(''o'', ''root'')]) ''o=root,m'' () = Inl ValueError
   \<and> delete_node (TreeNode 0 () [] [(''o'', ''root'')]) ''o=root,m'' = Inl ValueError
   \<and> insert_node (TreeNode 0 () [] [(''o'', ''root'')]) () ''o=root,m'' 1 = Inl ValueError"
proof -
  have h: "\<exists>s \<in> set (split_chr CHR '','' ''o=root,m''). CHR ''='' \<notin> set s" by simp
  from parse_error_propagates [OF h, where t = "TreeNode 0 () [] [(''o'', ''root'')]" and nd = "()"
      and u = 1 and dp = None and fs = "()" and w = "\<lambda>p r fs. Inr fs"]
  show ?thesis
    by (simp add: is_valid_new_node_identifier_def startswith_def)
qed

text \<open>
  The claim as it was written fails: no result \<open>(success, message)\<close> is returned on such
  text, the exception of the parse leaves every operation.
\<close>

theorem parse_error_counterexample:
  "db_query \<lparr>root = Some (TreeNode 0 () [] [(''o'', ''root'')]), db_path = Some ''data.db''\<rparr> ''m'' ()
     = Inl ValueError
   \<and> update_node (TreeNode 0 () [] [(''o'', ''root'')]) ''m'' () = Inl ValueError
   \<and> delete_node (TreeNode 0 () [] [(''o'', ''root'')]) ''m'' = Inl ValueError
   \<and> insert_node (TreeNode 0 () [] [(''o'', ''root'')]) () ''o=root,m'' 1 = Inl ValueError"
  by (simp add: db_query_def find_by_query_def update_node_def find_by_query_ref_def delete_node_def
      insert_node_def is_valid_new_node_identifier_def startswith_def parse_identifier_def)

section \<open>The store and persistence\<close>

lemma delete_unchanged_both:
  "delete_node_inner query (t::'d TreeNode) = Inr (t', False) \<Longrightarrow> t' = t"
  "delete_node_loop query (cs::'d TreeNode list) = Inr (cs', False) \<Longrightarrow> cs' = cs"
proof (induction query t and query cs arbitrary: t' and cs' rule: delete_node_inner_delete_node_loop.induct)
  case (1 query u dt cs nid)
  then show ?case by (auto split: sum.splits prod.splits)
next
  case (2 query)
  then show ?case by simp
next
  case (3 query child cs)
  then show ?case
    by (auto split: sum.splits prod.splits if_splits)
qed

lemma delete_node_failure_unchanged:
  "delete_node t query = Inr (t', False, msg) \<Longrightarrow> t' = t"
  by (auto simp: delete_node_def split: sum.splits option.splits prod.splits if_splits
      dest: delete_unchanged_both(1))

lemma update_node_failure_unchanged:
  "update_node t query nd = Inr (t', False, msg) \<Longrightarrow> t' = t"
  by (auto simp: update_node_def split: sum.splits option.splits)

lemma insert_node_failure_unchanged:
  "insert_node t nd ident u = Inr (t', False, msg) \<Longrightarrow> t' = t"
  by (auto simp: insert_node_def Let_def split: sum.splits option.splits if_splits)

lemma after_mutation_success:
  assumes "Initialized s" "root s = Some r" "db_path s = Some p"
  shows "after_mutation w s fs (Inr (r', True, msg)) =
           (case w p (Some r') fs of Inl e \<Rightarrow> Inl e | Inr fs' \<Rightarrow> Inr (s\<lparr>root := Some r'\<rparr>, fs', True, msg))"
  using assms by (simp add: after_mutation_def save_cb_def save_tree_def Initialized_def)

lemma after_mutation_failure:
  assumes "root s = Some r"
  shows "after_mutation w s fs (Inr (r, False, msg)) = Inr (s, fs, False, msg)"
  using assms by (simp add: after_mutation_def)

text \<open>
  C8. For every store in the Initialized state, insert, update and delete write the
  whole tree to \<open>db_path\<close> exactly when the operation on the root node reports success,
  and the success is returned only after the write (a failing write raises instead);
  when the operation on the root reports failure, nothing is written, the store is as
  before and the message of the operation is returned as it is; query leaves the store
  and the file system as they are.
\<close>

theorem persist_exactly_on_success:
  assumes "Initialized s" "root s = Some r" "db_path s = Some p"
  shows "(insert_node r nd ident u = Inr (r', True, msg) \<longrightarrow>
            db_insert w s nd ident u fs =
              (case w p (Some r') fs of Inl e \<Rightarrow> Inl e
               | Inr fs' \<Rightarrow> Inr (s\<lparr>root := Some r'\<rparr>, fs', True, msg)))
       \<and> (insert_node r nd ident u = Inr (r', False, msg) \<longrightarrow>
            db_insert w s nd ident u fs = Inr (s, fs, False, msg))
       \<and> (update_node r query nd = Inr (r', True, msg) \<longrightarrow>
            db_update w s query nd fs =
              (case w p (Some r') fs of Inl e \<Rightarrow> Inl e
               | Inr fs' \<Rightarrow> Inr (s\<lparr>root := Some r'\<rparr>, fs', True, msg)))
       \<and> (update_node r query nd = Inr (r', False, msg) \<longrightarrow>
            db_update w s query nd fs = Inr (s, fs, False, msg))
       \<and> (delete_node r query = Inr (r', True, msg) \<longrightarrow>
            db_delete w s query fs =
              (case w p (Some r') fs of Inl e \<Rightarrow> Inl e
               | Inr fs' \<Rightarrow> Inr (s\<lparr>root := Some r'\<rparr>, fs', True, msg)))
       \<and> (delete_node r query = Inr (r', False, msg) \<longrightarrow>
            db_delete w s query fs = Inr (s, fs, False, msg))
       \<and> (\<forall>s' fs' res. db_query s query fs = Inr (s', fs', res) \<longrightarrow> s' = s \<and> fs' = fs)"
proof -
  have i1: "insert_node r nd ident u = Inr (r', True, msg) \<longrightarrow>
            db_insert w s nd ident u fs =
              (case w p (Some r') fs of Inl e \<Rightarrow> Inl e
               | Inr fs' \<Rightarrow> Inr (s\<lparr>root := Some r'\<rparr>, fs', True, msg))"
    using assms by (simp add: db_insert_def after_mutation_success)
  have i2: "insert_node r nd ident u = Inr (r', False, msg) \<longrightarrow>
            db_insert w s nd ident u fs = Inr (s, fs, False, msg)"
    using assms insert_node_failure_unchanged[of r nd ident u r' msg]
    by (auto simp: db_insert_def after_mutation_failure)
  have u1: "update_node r query nd = Inr (r', True, msg) \<longrightarrow>
            db_update w s query nd fs =
              (case w p (Some r') fs of Inl e \<Rightarrow> Inl e
               | Inr fs' \<Rightarrow> Inr (s\<lparr>root := Some r'\<rparr>, fs', True, msg))"
    using assms by (simp add: db_update_def after_mutation_success)
  have u2: "update_node r query nd = Inr (r', False, msg) \<longrightarrow>
            db_update w s query nd fs = Inr (s, fs, False, msg)"
    using assms update_node_failure_unchanged[of r query nd r' msg]
    by (auto simp: db_update_def after_mutation_failure)
  have d1: "delete_node r query = Inr (r', True, msg) \<longrightarrow>
            db_delete w s query fs =
              (case w p (Some r') fs of Inl e \<Rightarrow> Inl e
               | Inr fs' \<Rightarrow> Inr (s\<lparr>root := Some r'\<rparr>, fs', True, msg))"
    using assms by (simp add: db_delete_def after_mutation_success)
  have d2: "delete_node r query = Inr (r', False, msg) \<longrightarrow>
            db_delete w s query fs = Inr (s, fs, False, msg)"
    using assms delete_node_failure_unchanged[of r query r' msg]
    by (auto simp: db_delete_def after_mutation_failure)
  have q: "\<forall>s' fs' res. db_query s query fs = Inr (s', fs', res) \<longrightarrow> s' = s \<and> fs' = fs"
    by (auto simp: db_query_def split: option.splits sum.splits)
  from i1 i2 u1 u2 d1 d2 q show ?thesis by blast
qed

theorem persist_exactly_on_success_witness:
  "Initialized \<lparr>root = Some (TreeNode 0 () [] [(''o'', ''root'')]), db_path = Some ''data.db''\<rparr>
   \<and> insert_node (TreeNode 0 () [] [(''o'', ''root'')]) () ''o=root,m=a'' 1
       = Inr (TreeNode 0 () [TreeNode 1 () [] [(''o'', ''root''), (''m'', ''a'')]] [(''o'', ''root'')],
              True, ''Node inserted successfully.'')
   \<and> db_insert (\<lambda>p r fs. Inr ((p, r) # fs))
        \<lparr>root = Some (TreeNode 0 () [] [(''o'', ''root'')]), db_path = Some ''data.db''\<rparr>
        () ''o=root,m=a'' 1 []
       = Inr (\<lparr>root = Some (TreeNode 0 () [TreeNode 1 () [] [(''o'', ''root''), (''m'', ''a'')]] [(''o'', ''root'')]),
               db_path = Some ''data.db''\<rparr>,
              [(''data.db'', Some (TreeNode 0 () [TreeNode 1 () [] [(''o'', ''root''), (''m'', ''a'')]] [(''o'', ''root'')]))],
              True, ''Node inserted successfully.'')"
proof -
  let ?r = "TreeNode 0 () [] [(''o'', ''root'')] :: unit TreeNode"
  let ?s = "\<lparr>root = Some ?r, db_path = Some ''data.db''\<rparr>"
  let ?r' = "TreeNode 0 () [TreeNode 1 () [] [(''o'', ''root''), (''m'', ''a'')]] [(''o'', ''root'')] :: unit TreeNode"
  have i: "Initialized ?s" by (simp add: Initialized_def)
  have n: "insert_node ?r () ''o=root,m=a'' 1 = Inr (?r', True, ''Node inserted successfully.'')"
    by (simp add: insert_node_def is_valid_new_node_identifier_def startswith_def parse_identifier_def
        find_by_query_ref_def kv_str_def query_matches_def NodeIdentifier_eq_def TreeNode_init_def
        add_child_def)
  have "db_insert (\<lambda>p r fs. Inr ((p, r) # fs)) ?s () ''o=root,m=a'' 1 []
        = (case Inr ((''data.db'', Some ?r') # []) :: py_error + (string \<times> unit TreeNode option) list of
             Inl e \<Rightarrow> Inl e
           | Inr fs' \<Rightarrow> Inr (?s\<lparr>root := Some ?r'\<rparr>, fs', True, ''Node inserted successfully.''))"
    using persist_exactly_on_success [of ?s ?r "''data.db''" "()" "''o=root,m=a''" 1 ?r'
        "''Node inserted successfully.''" "\<lambda>p r fs. Inr ((p, r) # fs)" "[]"] i n
    by simp
  with i n show ?thesis by simp
qed

section \<open>Deleting\<close>

lemma forest_induct:
  assumes "P []"
      and "\<And>u dt cs nid rest. P cs \<Longrightarrow> P rest \<Longrightarrow> P (TreeNode u dt cs nid # rest)"
  shows "P (cs :: 'd TreeNode list)"
  using forest_paths.induct[of "\<lambda>_ cs. P cs" 0 cs] assms by blast

lemma forest_paths_nonempty: "p \<in> set (forest_paths i cs) \<Longrightarrow> p \<noteq> []"
  by (induction i cs rule: forest_paths.induct) auto

lemma forest_paths_Suc: "forest_paths (Suc i) cs = map bump (forest_paths i cs)"
  by (induction i cs rule: forest_paths.induct) auto

lemma find_map_opt: "List.find P (map f xs) = map_option f (List.find (P \<circ> f) xs)"
  by (induction xs) auto

lemma hit_bump: "p \<noteq> [] \<Longrightarrow> hit qd (c # rest) (bump p) = hit qd rest p"
proof (cases p)
  case Nil then show "p \<noteq> [] \<Longrightarrow> ?thesis" by simp
next
  case (Cons j r)
  then show ?thesis by (cases r) (auto simp: hit_def)
qed

lemma remove_bump: "p \<noteq> [] \<Longrightarrow> forest_remove (bump p) (c # rest) = c # forest_remove p rest"
proof (cases p)
  case Nil then show "p \<noteq> [] \<Longrightarrow> ?thesis" by simp
next
  case (Cons j r)
  then show ?thesis by (cases r) auto
qed

lemma hit_zero: "p \<noteq> [] \<Longrightarrow> hit qd (c # rest) (0 # p) = hit qd (children c) p"
  by (cases p) (auto simp: hit_def)

lemma remove_zero:
  "p \<noteq> [] \<Longrightarrow> forest_remove (0 # p) (c # rest)
     = TreeNode (uid c) (data c) (forest_remove p (children c)) (node_identifier c) # rest"
  by (cases p) auto

lemma current_level_nonempty:
  assumes "d \<noteq> []"
  shows "\<exists>a. get_current_level_identifier d = Inr a"
proof -
  have "last d \<in> set d" using assms by simp
  then have "fst (last d) \<in> fst ` set d" by (rule imageI)
  then have "map_of d (fst (last d)) \<noteq> None" by (simp add: map_of_eq_None_iff)
  then show ?thesis using assms by (auto simp: get_current_level_identifier_def Let_def)
qed


lemma delete_node_loop_spec:
  assumes q: "parse_identifier query = Inr qd" and b: "get_current_level_identifier qd = Inr b"
  shows "ids_nonempty cs \<Longrightarrow>
         delete_node_loop query cs =
           Inr (case List.find (hit qd cs) (forest_paths 0 cs) of
                  None \<Rightarrow> (cs, False)
                | Some p \<Rightarrow> (forest_remove p cs, True))"
proof (induction cs rule: forest_induct)
  case 1
  show ?case by simp
next
  case (2 u dt ccs nid rest)
  let ?c = "TreeNode u dt ccs nid"
  from "2.prems" have ne: "nid \<noteq> []" and n1: "ids_nonempty ccs" and n2: "ids_nonempty rest"
    by simp_all
  from current_level_nonempty[OF ne] obtain a where a: "get_current_level_identifier nid = Inr a"
    by blast
  have h0: "hit qd (?c # rest) [0] = (a = b)" by (simp add: hit_def a b)
  have f1: "List.find (hit qd (?c # rest)) (map ((#) 0) (forest_paths 0 ccs))
            = map_option ((#) 0) (List.find (hit qd ccs) (forest_paths 0 ccs))"
  proof -
    have "List.find (hit qd (?c # rest) \<circ> (#) 0) (forest_paths 0 ccs)
          = List.find (hit qd ccs) (forest_paths 0 ccs)"
      by (rule find_cong) (auto simp: hit_zero dest: forest_paths_nonempty)
    then show ?thesis by (simp add: find_map_opt)
  qed
  have f2: "List.find (hit qd (?c # rest)) (forest_paths (Suc 0) rest)
            = map_option bump (List.find (hit qd rest) (forest_paths 0 rest))"
  proof -
    have "List.find (hit qd (?c # rest) \<circ> bump) (forest_paths 0 rest)
          = List.find (hit qd rest) (forest_paths 0 rest)"
      by (rule find_cong) (auto simp: hit_bump dest: forest_paths_nonempty)
    then show ?thesis by (simp add: forest_paths_Suc find_map_opt)
  qed
  show ?case
  proof (cases "a = b")
    case True
    then show ?thesis by (simp add: a b q h0)
  next
    case False
    note ab = False
    show ?thesis
    proof (cases "List.find (hit qd ccs) (forest_paths 0 ccs)")
      case (Some p)
      then have "p \<in> set (forest_paths 0 ccs)" by (auto simp: find_Some_iff)
      then have pne: "p \<noteq> []" by (rule forest_paths_nonempty)
      from "2.IH"(1)[OF n1] Some
      have l: "delete_node_loop query ccs = Inr (forest_remove p ccs, True)" by simp
      show ?thesis
        using ab by (simp add: a b q h0 l f1 Some find_append_opt remove_zero[OF pne])
    next
      case None
      from "2.IH"(1)[OF n1] None
      have l: "delete_node_loop query ccs = Inr (ccs, False)" by simp
      show ?thesis
      proof (cases "List.find (hit qd rest) (forest_paths 0 rest)")
        case (Some p)
        then have "p \<in> set (forest_paths 0 rest)" by (auto simp: find_Some_iff)
        then have pne: "p \<noteq> []" by (rule forest_paths_nonempty)
        from "2.IH"(2)[OF n2] Some
        have l2: "delete_node_loop query rest = Inr (forest_remove p rest, True)" by simp
        show ?thesis
          using ab by (simp add: a b q h0 l l2 f1 f2 None Some find_append_opt remove_bump[OF pne])
      next
        case None2: None
        from "2.IH"(2)[OF n2] None2
        have l2: "delete_node_loop query rest = Inr (rest, False)" by simp
        show ?thesis
          using ab by (simp add: a b q h0 l l2 f1 f2 None None2 find_append_opt)
      qed
    qed
  qed
qed

lemma dict_setitem_nonempty: "dict_setitem d k v \<noteq> []"
  by (cases d) (auto split: if_splits)

lemma dict_of_seq_nonempty: "dict_of_seq d es = Inr d' \<Longrightarrow> d \<noteq> [] \<Longrightarrow> d' \<noteq> []"
  by (induction d es rule: dict_of_seq.induct) (auto simp: dict_setitem_nonempty)

lemma parse_identifier_nonempty:
  assumes "parse_identifier s = Inr d" shows "d \<noteq> []"
proof -
  obtain e es where es: "map (split_chr CHR ''='') (split_chr CHR '','' s) = e # es"
    using split_chr_nonempty[of "CHR '',''" s] by (cases "split_chr CHR '','' s") auto
  from assms have r: "dict_of_seq [] (e # es) = Inr d" by (simp add: parse_identifier_def es)
  then obtain k v where "e = [k, v]"
    by (cases "([]::NodeIdentifier, e # es)" rule: dict_of_seq.cases) auto
  with r have "dict_of_seq (dict_setitem [] k v) es = Inr d" by simp
  then show ?thesis by (rule dict_of_seq_nonempty) simp
qed




lemma delete_node_spec:
  assumes q: "parse_identifier query = Inr qd"
      and m: "list_ex (\<lambda>n. query_matches qd (node_identifier n)) (preorder t)"
      and n: "ids_nonempty (children t)"
  shows "delete_node t query =
           Inr (case List.find (hit qd (children t)) (forest_paths 0 (children t)) of
                  None \<Rightarrow> (t, False, ''Node not found.'')
                | Some p \<Rightarrow> (remove_at p t, True, ''Node deleted successfully.''))"
proof -
  from parse_identifier_nonempty[OF q] current_level_nonempty
  obtain b where b: "get_current_level_identifier qd = Inr b" by blast
  have s: "search qd t \<noteq> None"
    using m by (auto simp: search_find_both find_None_iff list_ex_iff)
  then obtain n' where f: "find_by_query t query = Inr (Some n')"
    by (auto simp: find_by_query_def q)
  obtain u dt cs nid where t: "t = TreeNode u dt cs nid" by (cases t)
  have l: "delete_node_loop query cs =
           Inr (case List.find (hit qd cs) (forest_paths 0 cs) of
                  None \<Rightarrow> (cs, False)
                | Some p \<Rightarrow> (forest_remove p cs, True))"
    using delete_node_loop_spec[OF q b, of cs] n t by simp
  show ?thesis
    by (cases "List.find (hit qd cs) (forest_paths 0 cs)")
       (simp_all add: delete_node_def f[unfolded t] t l remove_at_def)
qed

lemma delete_node_inner_root:
  "delete_node_inner query t = Inr (t', r) \<Longrightarrow>
     uid t' = uid t \<and> data t' = data t \<and> node_identifier t' = node_identifier t"
  by (cases t) (auto split: sum.splits prod.splits)

lemma delete_node_root:
  "delete_node t query = Inr (t', ok, msg) \<Longrightarrow>
     uid t' = uid t \<and> data t' = data t \<and> node_identifier t' = node_identifier t"
  by (auto simp: delete_node_def split: sum.splits option.splits prod.splits if_splits
      dest: delete_node_inner_root)



text \<open>
  C10 (as amended). For every tree and every delete query, the root is never removed:
  after any delete call that returns, the root is there with its identifier, identity
  and payload unchanged, since delete only takes entries out of children lists. A delete
  whose query matches the root returns the failure "Node not found." when no node
  below the root has the current-level identifier of the query; when one has it, the
  first such node is removed and success is returned, also when the root is the only
  node that matches the query.
\<close>

theorem delete_keeps_root:
  shows "(\<forall>t' ok msg. delete_node t query = Inr (t', ok, msg) \<longrightarrow>
            uid t' = uid t \<and> data t' = data t \<and> node_identifier t' = node_identifier t)
       \<and> (parse_identifier query = Inr qd \<and> query_matches qd (node_identifier t)
            \<and> ids_nonempty (children t)
            \<and> \<not> list_ex (hit qd (children t)) (forest_paths 0 (children t))
          \<longrightarrow> delete_node t query = Inr (t, False, ''Node not found.''))
       \<and> (parse_identifier query = Inr qd \<and> query_matches qd (node_identifier t)
            \<and> ids_nonempty (children t)
            \<and> List.find (hit qd (children t)) (forest_paths 0 (children t)) = Some p
          \<longrightarrow> delete_node t query = Inr (remove_at p t, True, ''Node deleted successfully.''))"
proof (intro conjI)
  show "\<forall>t' ok msg. delete_node t query = Inr (t', ok, msg) \<longrightarrow>
            uid t' = uid t \<and> data t' = data t \<and> node_identifier t' = node_identifier t"
    using delete_node_root by blast
next
  have self: "t \<in> set (preorder t)" by (cases t) simp
  show "parse_identifier query = Inr qd \<and> query_matches qd (node_identifier t)
            \<and> ids_nonempty (children t)
            \<and> \<not> list_ex (hit qd (children t)) (forest_paths 0 (children t))
          \<longrightarrow> delete_node t query = Inr (t, False, ''Node not found.'')"
  proof
    assume a: "parse_identifier query = Inr qd \<and> query_matches qd (node_identifier t)
            \<and> ids_nonempty (children t)
            \<and> \<not> list_ex (hit qd (children t)) (forest_paths 0 (children t))"
    with self have m: "list_ex (\<lambda>n. query_matches qd (node_identifier n)) (preorder t)"
      by (auto simp: list_ex_iff)
    from a have "List.find (hit qd (children t)) (forest_paths 0 (children t)) = None"
      by (auto simp: find_None_iff list_ex_iff)
    with delete_node_spec[OF _ m, of query] a
    show "delete_node t query = Inr (t, False, ''Node not found.'')" by simp
  qed
  show "parse_identifier query = Inr qd \<and> query_matches qd (node_identifier t)
            \<and> ids_nonempty (children t)
            \<and> List.find (hit qd (children t)) (forest_paths 0 (children t)) = Some p
          \<longrightarrow> delete_node t query = Inr (remove_at p t, True, ''Node deleted successfully.'')"
  proof
    assume a: "parse_identifier query = Inr qd \<and> query_matches qd (node_identifier t)
            \<and> ids_nonempty (children t)
            \<and> List.find (hit qd (children t)) (forest_paths 0 (children t)) = Some p"
    with self have m: "list_ex (\<lambda>n. query_matches qd (node_identifier n)) (preorder t)"
      by (auto simp: list_ex_iff)
    with delete_node_spec[OF _ m, of query] a
    show "delete_node t query = Inr (remove_at p t, True, ''Node deleted successfully.'')" by simp
  qed
qed

theorem delete_keeps_root_witness:
  "parse_identifier ''o=root'' = Inr [(''o'', ''root'')]
   \<and> query_matches [(''o'', ''root'')] (node_identifier (TreeNode 0 () [TreeNode 1 () [TreeNode 3 () [] [(''o'', ''root''), (''m'', ''a''), (''c'', ''x'')]] [(''o'', ''root''), (''m'', ''a'')], TreeNode 2 () [TreeNode 4 () [] [(''o'', ''root''), (''m'', ''b''), (''c'', ''x'')]] [(''o'', ''root''), (''m'', ''b'')]] [(''o'', ''root'')]))
   \<and> ids_nonempty (children (TreeNode 0 () [TreeNode 1 () [TreeNode 3 () [] [(''o'', ''root''), (''m'', ''a''), (''c'', ''x'')]] [(''o'', ''root''), (''m'', ''a'')], TreeNode 2 () [TreeNode 4 () [] [(''o'', ''root''), (''m'', ''b''), (''c'', ''x'')]] [(''o'', ''root''), (''m'', ''b'')]] [(''o'', ''root'')]))
   \<and> delete_node (TreeNode 0 () [TreeNode 1 () [TreeNode 3 () [] [(''o'', ''root''), (''m'', ''a''), (''c'', ''x'')]] [(''o'', ''root''), (''m'', ''a'')], TreeNode 2 () [TreeNode 4 () [] [(''o'', ''root''), (''m'', ''b''), (''c'', ''x'')]] [(''o'', ''root''), (''m'', ''b'')]] [(''o'', ''root'')]) ''o=root'' = Inr (TreeNode 0 () [TreeNode 1 () [TreeNode 3 () [] [(''o'', ''root''), (''m'', ''a''), (''c'', ''x'')]] [(''o'', ''root''), (''m'', ''a'')], TreeNode 2 () [TreeNode 4 () [] [(''o'', ''root''), (''m'', ''b''), (''c'', ''x'')]] [(''o'', ''root''), (''m'', ''b'')]] [(''o'', ''root'')], False, ''Node not found.'')"
proof -
  let ?t = "TreeNode 0 () [TreeNode 1 () [TreeNode 3 () [] [(''o'', ''root''), (''m'', ''a''), (''c'', ''x'')]] [(''o'', ''root''), (''m'', ''a'')], TreeNode 2 () [TreeNode 4 () [] [(''o'', ''root''), (''m'', ''b''), (''c'', ''x'')]] [(''o'', ''root''), (''m'', ''b'')]] [(''o'', ''root'')] :: unit TreeNode"
  let ?qd = "[(''o'', ''root'')]"
  have p: "parse_identifier ''o=root'' = Inr ?qd" by (simp add: parse_identifier_def)
  have m: "query_matches ?qd (node_identifier ?t)" by (simp add: query_matches_def)
  have n: "ids_nonempty (children ?t)" by simp
  have h: "\<not> list_ex (hit ?qd (children ?t)) (forest_paths 0 (children ?t))"
    by (simp add: hit_def get_current_level_identifier_def kv_str_def)
  from delete_keeps_root [of ?t "''o=root''" ?qd, THEN conjunct2, THEN conjunct1] p m n h
  have "delete_node ?t ''o=root'' = Inr (?t, False, ''Node not found.'')" by blast
  with p m n show ?thesis by simp
qed

text \<open>
  The claim as it was written fails in its last part. The root \<open>o=r,a=1,b=2\<close> receives
  the child \<open>o=r,b=2\<close> by an insert; the query \<open>a=1,b=2\<close> matches the root and not the
  child, and delete returns success and removes the child.
\<close>

theorem delete_keeps_root_counterexample:
  "insert_node (TreeNode 0 () [] [(''o'', ''r''), (''a'', ''1''), (''b'', ''2'')]) () ''o=r,b=2'' 1 = Inr (TreeNode 0 () [TreeNode 1 () [] [(''o'', ''r''), (''b'', ''2'')]] [(''o'', ''r''), (''a'', ''1''), (''b'', ''2'')], True, ''Node inserted successfully.'')
   \<and> find_by_query (TreeNode 0 () [TreeNode 1 () [] [(''o'', ''r''), (''b'', ''2'')]] [(''o'', ''r''), (''a'', ''1''), (''b'', ''2'')]) ''a=1,b=2'' = Inr (Some (TreeNode 0 () [TreeNode 1 () [] [(''o'', ''r''), (''b'', ''2'')]] [(''o'', ''r''), (''a'', ''1''), (''b'', ''2'')]))
   \<and> \<not> query_matches [(''a'', ''1''), (''b'', ''2'')] [(''o'', ''r''), (''b'', ''2'')]
   \<and> delete_node (TreeNode 0 () [TreeNode 1 () [] [(''o'', ''r''), (''b'', ''2'')]] [(''o'', ''r''), (''a'', ''1''), (''b'', ''2'')]) ''a=1,b=2'' = Inr (TreeNode 0 () [] [(''o'', ''r''), (''a'', ''1''), (''b'', ''2'')], True, ''Node deleted successfully.'')"
proof -
  have 1: "insert_node (TreeNode 0 () [] [(''o'', ''r''), (''a'', ''1''), (''b'', ''2'')]) () ''o=r,b=2'' 1 = Inr (TreeNode 0 () [TreeNode 1 () [] [(''o'', ''r''), (''b'', ''2'')]] [(''o'', ''r''), (''a'', ''1''), (''b'', ''2'')] :: unit TreeNode, True, ''Node inserted successfully.'')"
    by (simp add: insert_node_def is_valid_new_node_identifier_def startswith_def parse_identifier_def
        find_by_query_ref_def kv_str_def query_matches_def NodeIdentifier_eq_def TreeNode_init_def
        add_child_def)
  have 2: "find_by_query (TreeNode 0 () [TreeNode 1 () [] [(''o'', ''r''), (''b'', ''2'')]] [(''o'', ''r''), (''a'', ''1''), (''b'', ''2'')] :: unit TreeNode) ''a=1,b=2'' = Inr (Some (TreeNode 0 () [TreeNode 1 () [] [(''o'', ''r''), (''b'', ''2'')]] [(''o'', ''r''), (''a'', ''1''), (''b'', ''2'')]))"
    by (simp add: find_by_query_def parse_identifier_def query_matches_def)
  have 3: "\<not> query_matches [(''a'', ''1''), (''b'', ''2'')] [(''o'', ''r''), (''b'', ''2'')]"
    by (simp add: query_matches_def)
  have 4: "delete_node (TreeNode 0 () [TreeNode 1 () [] [(''o'', ''r''), (''b'', ''2'')]] [(''o'', ''r''), (''a'', ''1''), (''b'', ''2'')] :: unit TreeNode) ''a=1,b=2'' = Inr (TreeNode 0 () [] [(''o'', ''r''), (''a'', ''1''), (''b'', ''2'')], True, ''Node deleted successfully.'')"
    using 2 by (simp add: delete_node_def parse_identifier_def get_current_level_identifier_def kv_str_def)
  from 1 2 3 4 show ?thesis by blast
qed

section \<open>Exporting the structure\<close>

lemma dict_setitem_keys: "fst ` set (dict_setitem d k v) = insert k (fst ` set d)"
proof (induction d)
  case Nil show ?case by simp
next
  case (Cons a d)
  then show ?case by (cases a) (simp add: insert_commute)
qed

lemma dict_setitem_is_dict: "is_dict d \<Longrightarrow> is_dict (dict_setitem d k v)"
  unfolding is_dict_def
proof (induction d)
  case Nil then show ?case by simp
next
  case (Cons a d)
  have "fst ` set (dict_setitem d k v) = insert k (fst ` set d)" by (rule dict_setitem_keys)
  with Cons show ?case by (cases a) auto
qed

lemma map_of_dict_setitem: "map_of (dict_setitem d k v) = (map_of d)(k \<mapsto> v)"
  by (induction d) (auto simp: fun_eq_iff)

lemma fill_append:
  "fill_node_dict acc (xs @ ys) =
     (case fill_node_dict acc xs of Inl e \<Rightarrow> Inl e | Inr a \<Rightarrow> fill_node_dict a ys)"
  by (induction xs arbitrary: acc) (auto split: sum.splits)

lemma fill_untouched:
  "fill_node_dict acc cs = Inr m \<Longrightarrow>
   \<forall>c \<in> set cs. get_current_level_identifier (node_identifier c) \<noteq> Inr k \<Longrightarrow>
   map_of m k = map_of acc k"
  by (induction cs arbitrary: acc) (auto split: sum.splits simp: map_of_dict_setitem)

lemma fill_keys:
  "fill_node_dict acc cs = Inr m \<Longrightarrow>
   fst ` set m = fst ` set acc \<union> {k. \<exists>c \<in> set cs. get_current_level_identifier (node_identifier c) = Inr k}"
proof (induction cs arbitrary: acc)
  case Nil then show ?case by simp
next
  case (Cons c cs)
  from Cons.prems obtain v k where
    v: "get_tree_structure c = Inr v" and k: "get_current_level_identifier (node_identifier c) = Inr k"
    and r: "fill_node_dict (dict_setitem acc k v) cs = Inr m"
    by (auto split: sum.splits)
  from Cons.IH[OF r] k show ?case by (auto simp: dict_setitem_keys)
qed

lemma fill_is_dict:
  "fill_node_dict acc cs = Inr m \<Longrightarrow> is_dict acc \<Longrightarrow> is_dict m"
  by (induction cs arbitrary: acc) (auto split: sum.splits simp: dict_setitem_is_dict)

lemma fill_total:
  "ids_nonempty cs \<Longrightarrow> \<exists>m. fill_node_dict acc cs = Inr m"
proof (induction cs arbitrary: acc rule: forest_induct)
  case 1 show ?case by simp
next
  case (2 u dt ccs nid rest)
  from "2.prems" have ne: "nid \<noteq> []" and n1: "ids_nonempty ccs" and n2: "ids_nonempty rest"
    by simp_all
  from current_level_nonempty[OF ne] obtain k where k: "get_current_level_identifier nid = Inr k"
    by blast
  from "2.IH"(1)[OF n1, of "[]"] obtain m0 where "fill_node_dict [] ccs = Inr m0" by blast
  then obtain v where v: "get_tree_structure (TreeNode u dt ccs nid) = Inr v"
    by (cases "ccs = []") auto
  from "2.IH"(2)[OF n2, of "dict_setitem acc k v"] obtain m where
    "fill_node_dict (dict_setitem acc k v) rest = Inr m" by blast
  then show ?case using k v by (simp del: get_tree_structure.simps)
qed

lemma get_tree_structure_total:
  "ids_nonempty (children t) \<Longrightarrow> \<exists>s. get_tree_structure t = Inr s"
  using fill_total[of "children t" "[]"] by (cases t) auto

lemma ids_nonempty_mem: "ids_nonempty cs \<Longrightarrow> c \<in> set cs \<Longrightarrow> node_identifier c \<noteq> [] \<and> ids_nonempty (children c)"
  by (induction cs rule: forest_induct) auto

text \<open>
  C9 (as amended). For every node, \<open>get_tree_structure\<close> returns an empty sequence (not
  an empty mapping) when the node has no children; otherwise (the nodes below carrying
  non-empty identifiers) it returns a mapping whose key set is the set of the
  current-level identifier strings of its children, and each key is mapped to the
  exported structure of the last child that has this current-level identifier.
\<close>

theorem export_structure:
  "(children t = [] \<longrightarrow> get_tree_structure t = Inr EmptyList)
   \<and> (children t \<noteq> [] \<and> ids_nonempty (children t) \<longrightarrow>
        (\<exists>m. get_tree_structure t = Inr (Mapping m) \<and> is_dict m
           \<and> fst ` set m = {k. \<exists>c \<in> set (children t). get_current_level_identifier (node_identifier c) = Inr k}
           \<and> (\<forall>cs1 c cs2. children t = cs1 @ c # cs2
                 \<and> (\<forall>c' \<in> set cs2. get_current_level_identifier (node_identifier c')
                                    \<noteq> get_current_level_identifier (node_identifier c))
                \<longrightarrow> (\<exists>k s. get_current_level_identifier (node_identifier c) = Inr k
                          \<and> get_tree_structure c = Inr s \<and> map_of m k = Some s))))"
proof (rule conjI)
  show "children t = [] \<longrightarrow> get_tree_structure t = Inr EmptyList" by (cases t) simp
next
  show "children t \<noteq> [] \<and> ids_nonempty (children t) \<longrightarrow>
        (\<exists>m. get_tree_structure t = Inr (Mapping m) \<and> is_dict m
           \<and> fst ` set m = {k. \<exists>c \<in> set (children t). get_current_level_identifier (node_identifier c) = Inr k}
           \<and> (\<forall>cs1 c cs2. children t = cs1 @ c # cs2
                 \<and> (\<forall>c' \<in> set cs2. get_current_level_identifier (node_identifier c')
                                    \<noteq> get_current_level_identifier (node_identifier c))
                \<longrightarrow> (\<exists>k s. get_current_level_identifier (node_identifier c) = Inr k
                          \<and> get_tree_structure c = Inr s \<and> map_of m k = Some s)))"
  proof
    assume a: "children t \<noteq> [] \<and> ids_nonempty (children t)"
    from a fill_total[of "children t" "[]"] obtain m where m: "fill_node_dict [] (children t) = Inr m"
      by blast
    have g: "get_tree_structure t = Inr (Mapping m)" using a m by (cases t) auto
    have d: "is_dict m" using fill_is_dict[OF m] by (simp add: is_dict_def)
    have ks: "fst ` set m = {k. \<exists>c \<in> set (children t). get_current_level_identifier (node_identifier c) = Inr k}"
      using fill_keys[OF m] by simp
    have last: "\<exists>k s. get_current_level_identifier (node_identifier c) = Inr k
                    \<and> get_tree_structure c = Inr s \<and> map_of m k = Some s"
      if sp: "children t = cs1 @ c # cs2"
        and no: "\<forall>c' \<in> set cs2. get_current_level_identifier (node_identifier c')
                                    \<noteq> get_current_level_identifier (node_identifier c)"
      for cs1 c cs2
    proof -
      have "c \<in> set (children t)" using sp by simp
      with a ids_nonempty_mem have ne: "node_identifier c \<noteq> []" and nc: "ids_nonempty (children c)"
        by blast+
      from current_level_nonempty[OF ne] obtain k where
        k: "get_current_level_identifier (node_identifier c) = Inr k" by blast
      from get_tree_structure_total[OF nc] obtain s where s: "get_tree_structure c = Inr s" by blast
      from m sp obtain a1 where a1: "fill_node_dict [] cs1 = Inr a1"
        and r: "fill_node_dict a1 (c # cs2) = Inr m"
        by (auto simp: fill_append split: sum.splits)
      from r k s have r2: "fill_node_dict (dict_setitem a1 k s) cs2 = Inr m" by simp
      have "map_of m k = map_of (dict_setitem a1 k s) k"
        using fill_untouched[OF r2, of k] no k by simp
      then have "map_of m k = Some s" by (simp add: map_of_dict_setitem)
      with k s show ?thesis by blast
    qed
    from g d ks last show "\<exists>m. get_tree_structure t = Inr (Mapping m) \<and> is_dict m
           \<and> fst ` set m = {k. \<exists>c \<in> set (children t). get_current_level_identifier (node_identifier c) = Inr k}
           \<and> (\<forall>cs1 c cs2. children t = cs1 @ c # cs2
                 \<and> (\<forall>c' \<in> set cs2. get_current_level_identifier (node_identifier c')
                                    \<noteq> get_current_level_identifier (node_identifier c))
                \<longrightarrow> (\<exists>k s. get_current_level_identifier (node_identifier c) = Inr k
                          \<and> get_tree_structure c = Inr s \<and> map_of m k = Some s))"
      by blast
  qed
qed

theorem export_structure_witness:
  "get_tree_structure (TreeNode 3 () [] [(''o'', ''root''), (''m'', ''a''), (''c'', ''x'')]) = Inr EmptyList
   \<and> children (TreeNode 0 () [TreeNode 1 () [TreeNode 3 () [] [(''o'', ''root''), (''m'', ''a''), (''c'', ''x'')]] [(''o'', ''root''), (''m'', ''a'')], TreeNode 2 () [TreeNode 4 () [] [(''o'', ''root''), (''m'', ''b''), (''c'', ''x'')]] [(''o'', ''root''), (''m'', ''b'')]] [(''o'', ''root'')]) \<noteq> []
   \<and> ids_nonempty (children (TreeNode 0 () [TreeNode 1 () [TreeNode 3 () [] [(''o'', ''root''), (''m'', ''a''), (''c'', ''x'')]] [(''o'', ''root''), (''m'', ''a'')], TreeNode 2 () [TreeNode 4 () [] [(''o'', ''root''), (''m'', ''b''), (''c'', ''x'')]] [(''o'', ''root''), (''m'', ''b'')]] [(''o'', ''root'')]))
   \<and> (\<exists>m. get_tree_structure (TreeNode 0 () [TreeNode 1 () [TreeNode 3 () [] [(''o'', ''root''), (''m'', ''a''), (''c'', ''x'')]] [(''o'', ''root''), (''m'', ''a'')], TreeNode 2 () [TreeNode 4 () [] [(''o'', ''root''), (''m'', ''b''), (''c'', ''x'')]] [(''o'', ''root''), (''m'', ''b'')]] [(''o'', ''root'')]) = Inr (Mapping m) \<and> is_dict m
          \<and> fst ` set m = {''m=a'', ''m=b''})"
proof -
  let ?t = "TreeNode 0 () [TreeNode 1 () [TreeNode 3 () [] [(''o'', ''root''), (''m'', ''a''), (''c'', ''x'')]] [(''o'', ''root''), (''m'', ''a'')], TreeNode 2 () [TreeNode 4 () [] [(''o'', ''root''), (''m'', ''b''), (''c'', ''x'')]] [(''o'', ''root''), (''m'', ''b'')]] [(''o'', ''root'')] :: unit TreeNode"
  let ?l = "TreeNode 3 () [] [(''o'', ''root''), (''m'', ''a''), (''c'', ''x'')] :: unit TreeNode"
  have l: "get_tree_structure ?l = Inr EmptyList"
    using export_structure [of ?l, THEN conjunct1] by simp
  have c: "children ?t \<noteq> []" by simp
  have n: "ids_nonempty (children ?t)" by simp
  from export_structure [of ?t, THEN conjunct2] c n obtain m where
    g: "get_tree_structure ?t = Inr (Mapping m)" and d: "is_dict m" and
    ks: "fst ` set m = {k. \<exists>c \<in> set (children ?t). get_current_level_identifier (node_identifier c) = Inr k}"
    by blast
  have "{k. \<exists>c \<in> set (children ?t). get_current_level_identifier (node_identifier c) = Inr k}
        = {''m=a'', ''m=b''}"
    by (auto simp: get_current_level_identifier_def kv_str_def)
  with ks have "fst ` set m = {''m=a'', ''m=b''}" by simp
  with g d have "\<exists>m. get_tree_structure ?t = Inr (Mapping m) \<and> is_dict m
          \<and> fst ` set m = {''m=a'', ''m=b''}" by blast
  with l c n show ?thesis by blast
qed

text \<open>
  The claim as it was written fails where two children of one node have the same
  current-level identifier. Three inserts under the root \<open>o=r,z=1\<close> give it the
  children \<open>o=r,c=1\<close> (which has a child of its own) and \<open>o=r,z=1,c=1\<close>; the export of
  the root maps \<open>c=1\<close> to the export of the second child, and the structure of the
  first child is not in it.
\<close>

theorem export_structure_counterexample:
  "insert_node (TreeNode 0 () [] [(''o'', ''r''), (''z'', ''1'')]) () ''o=r,c=1'' 1 = Inr (TreeNode 0 () [TreeNode 1 () [] [(''o'', ''r''), (''c'', ''1'')]] [(''o'', ''r''), (''z'', ''1'')], True, ''Node inserted successfully.'')
   \<and> insert_node (TreeNode 0 () [TreeNode 1 () [] [(''o'', ''r''), (''c'', ''1'')]] [(''o'', ''r''), (''z'', ''1'')]) () ''o=r,z=1,c=1'' 2 = Inr (TreeNode 0 () [TreeNode 1 () [] [(''o'', ''r''), (''c'', ''1'')], TreeNode 2 () [] [(''o'', ''r''), (''z'', ''1''), (''c'', ''1'')]] [(''o'', ''r''), (''z'', ''1'')], True, ''Node inserted successfully.'')
   \<and> insert_node (TreeNode 0 () [TreeNode 1 () [] [(''o'', ''r''), (''c'', ''1'')], TreeNode 2 () [] [(''o'', ''r''), (''z'', ''1''), (''c'', ''1'')]] [(''o'', ''r''), (''z'', ''1'')]) () ''o=r,c=1,d=2'' 3 = Inr (TreeNode 0 () [TreeNode 1 () [TreeNode 3 () [] [(''o'', ''r''), (''c'', ''1''), (''d'', ''2'')]] [(''o'', ''r''), (''c'', ''1'')], TreeNode 2 () [] [(''o'', ''r''), (''z'', ''1''), (''c'', ''1'')]] [(''o'', ''r''), (''z'', ''1'')], True, ''Node inserted successfully.'')
   \<and> get_current_level_identifier (node_identifier (TreeNode 1 () [TreeNode 3 () [] [(''o'', ''r''), (''c'', ''1''), (''d'', ''2'')]] [(''o'', ''r''), (''c'', ''1'')])) = Inr ''c=1''
   \<and> get_tree_structure (TreeNode 1 () [TreeNode 3 () [] [(''o'', ''r''), (''c'', ''1''), (''d'', ''2'')]] [(''o'', ''r''), (''c'', ''1'')]) = Inr (Mapping [(''d=2'', EmptyList)])
   \<and> get_tree_structure (TreeNode 0 () [TreeNode 1 () [TreeNode 3 () [] [(''o'', ''r''), (''c'', ''1''), (''d'', ''2'')]] [(''o'', ''r''), (''c'', ''1'')], TreeNode 2 () [] [(''o'', ''r''), (''z'', ''1''), (''c'', ''1'')]] [(''o'', ''r''), (''z'', ''1'')]) = Inr (Mapping [(''c=1'', EmptyList)])"
proof -
  have 1: "insert_node (TreeNode 0 () [] [(''o'', ''r''), (''z'', ''1'')]) () ''o=r,c=1'' 1 = Inr (TreeNode 0 () [TreeNode 1 () [] [(''o'', ''r''), (''c'', ''1'')]] [(''o'', ''r''), (''z'', ''1'')] :: unit TreeNode, True, ''Node inserted successfully.'')"
    by (simp add: insert_node_def is_valid_new_node_identifier_def startswith_def parse_identifier_def
        find_by_query_ref_def kv_str_def query_matches_def NodeIdentifier_eq_def TreeNode_init_def
        add_child_def)
  have 2: "insert_node (TreeNode 0 () [TreeNode 1 () [] [(''o'', ''r''), (''c'', ''1'')]] [(''o'', ''r''), (''z'', ''1'')]) () ''o=r,z=1,c=1'' 2 = Inr (TreeNode 0 () [TreeNode 1 () [] [(''o'', ''r''), (''c'', ''1'')], TreeNode 2 () [] [(''o'', ''r''), (''z'', ''1''), (''c'', ''1'')]] [(''o'', ''r''), (''z'', ''1'')] :: unit TreeNode, True, ''Node inserted successfully.'')"
    by (simp add: insert_node_def is_valid_new_node_identifier_def startswith_def parse_identifier_def
        find_by_query_ref_def kv_str_def query_matches_def NodeIdentifier_eq_def TreeNode_init_def
        add_child_def)
  have 3: "insert_node (TreeNode 0 () [TreeNode 1 () [] [(''o'', ''r''), (''c'', ''1'')], TreeNode 2 () [] [(''o'', ''r''), (''z'', ''1''), (''c'', ''1'')]] [(''o'', ''r''), (''z'', ''1'')]) () ''o=r,c=1,d=2'' 3 = Inr (TreeNode 0 () [TreeNode 1 () [TreeNode 3 () [] [(''o'', ''r''), (''c'', ''1''), (''d'', ''2'')]] [(''o'', ''r''), (''c'', ''1'')], TreeNode 2 () [] [(''o'', ''r''), (''z'', ''1''), (''c'', ''1'')]] [(''o'', ''r''), (''z'', ''1'')] :: unit TreeNode, True, ''Node inserted successfully.'')"
    by (simp add: insert_node_def is_valid_new_node_identifier_def startswith_def parse_identifier_def
        find_by_query_ref_def kv_str_def query_matches_def NodeIdentifier_eq_def TreeNode_init_def
        add_child_def)
  have 4: "get_current_level_identifier (node_identifier (TreeNode 1 () [TreeNode 3 () [] [(''o'', ''r''), (''c'', ''1''), (''d'', ''2'')]] [(''o'', ''r''), (''c'', ''1'')] :: unit TreeNode)) = Inr ''c=1''"
    by (simp add: get_current_level_identifier_def kv_str_def)
  have 5: "get_tree_structure (TreeNode 1 () [TreeNode 3 () [] [(''o'', ''r''), (''c'', ''1''), (''d'', ''2'')]] [(''o'', ''r''), (''c'', ''1'')] :: unit TreeNode) = Inr (Mapping [(''d=2'', EmptyList)])"
    by (simp add: get_current_level_identifier_def kv_str_def)
  have 6: "get_tree_structure (TreeNode 0 () [TreeNode 1 () [TreeNode 3 () [] [(''o'', ''r''), (''c'', ''1''), (''d'', ''2'')]] [(''o'', ''r''), (''c'', ''1'')], TreeNode 2 () [] [(''o'', ''r''), (''z'', ''1''), (''c'', ''1'')]] [(''o'', ''r''), (''z'', ''1'')] :: unit TreeNode) = Inr (Mapping [(''c=1'', EmptyList)])"
    by (simp add: get_current_level_identifier_def kv_str_def)
  from 1 2 3 4 5 6 show ?thesis by blast
qed

section \<open>Inserting\<close>

lemma dict_of_seq_is_dict: "dict_of_seq d es = Inr d' \<Longrightarrow> is_dict d \<Longrightarrow> is_dict d'"
  by (induction d es rule: dict_of_seq.induct) (auto simp: dict_setitem_is_dict)

lemma parse_identifier_is_dict: "parse_identifier s = Inr d \<Longrightarrow> is_dict d"
  unfolding parse_identifier_def by (erule dict_of_seq_is_dict) (simp add: is_dict_def)





lemma extract_preorder: "extract_node_identifiers t = map node_identifier (preorder t)"
  by (induction t rule: extract_node_identifiers.induct) (simp add: map_concat comp_def cong: map_cong)

lemma search_path_agrees:
  "(case search_path q (t::'d TreeNode) of
      None \<Rightarrow> search q t = None
    | Some p \<Rightarrow> node_at t p = search q t \<and> search q t \<noteq> None)"
  "(case search_path_children q i (cs::'d TreeNode list) of
      None \<Rightarrow> search_children q cs = None
    | Some p \<Rightarrow> \<exists>j r. p = (i + j) # r \<and> j < length cs \<and> node_at (cs ! j) r = search_children q cs
                     \<and> search_children q cs \<noteq> None)"
proof (induction q t and q i cs rule: search_path_search_path_children.induct)
  case (1 q u dt cs nid)
  then show ?case by (auto split: option.splits)
next
  case (2 q i)
  then show ?case by simp
next
  case (3 q i child cs)
  show ?case
  proof (cases "search_path q child")
    case None
    with "3.IH"(1) have sn: "search q child = None" by simp
    show ?thesis
    proof (cases "search_path_children q (Suc i) cs")
      case None2: None
      with "3.IH"(2)[OF None] have "search_children q cs = None" by simp
      with None None2 sn show ?thesis by simp
    next
      case (Some p)
      with "3.IH"(2)[OF None] obtain j r where
        p: "p = (Suc i + j) # r" and j: "j < length cs"
        and n: "node_at (cs ! j) r = search_children q cs" and s: "search_children q cs \<noteq> None"
        by auto
      have "p = (i + Suc j) # r \<and> Suc j < length (child # cs)
            \<and> node_at ((child # cs) ! Suc j) r = search_children q (child # cs)
            \<and> search_children q (child # cs) \<noteq> None"
        using p j n s sn by simp
      then show ?thesis using None Some by (auto simp del: search_children.simps)
    qed
  next
    case (Some p)
    with "3.IH"(1) have "node_at child p = search q child" and "search q child \<noteq> None" by simp_all
    then have "i # p = (i + 0) # p \<and> 0 < length (child # cs)
            \<and> node_at ((child # cs) ! 0) p = search_children q (child # cs)
            \<and> search_children q (child # cs) \<noteq> None"
      by auto
    then show ?thesis using Some by (auto simp del: search_children.simps)
  qed
qed




lemma split_chr_pieces: "w \<in> set (split_chr c s) \<Longrightarrow> c \<notin> set w \<and> set w \<subseteq> set s"
proof (induction s arbitrary: w)
  case Nil then show ?case by simp
next
  case (Cons x xs)
  obtain v vs where vs: "split_chr c xs = v # vs"
    using split_chr_nonempty[of c xs] by (cases "split_chr c xs") auto
  show ?case
  proof (cases "x = c")
    case True
    with Cons show ?thesis by auto
  next
    case False
    with Cons.prems vs have "w = x # v \<or> w \<in> set vs" by auto
    then show ?thesis
    proof
      assume "w = x # v"
      moreover have "c \<notin> set v \<and> set v \<subseteq> set xs" using Cons.IH[of v] vs by simp
      ultimately show ?thesis using False by auto
    next
      assume "w \<in> set vs"
      then have "c \<notin> set w \<and> set w \<subseteq> set xs" using Cons.IH[of w] vs by simp
      then show ?thesis by auto
    qed
  qed
qed

lemma dict_setitem_subset: "set (dict_setitem d k v) \<subseteq> insert (k, v) (set d)"
proof (induction d)
  case Nil show ?case by simp
next
  case (Cons a d)
  then show ?case by (cases a) (auto split: if_splits)
qed

lemma dict_of_seq_clean:
  "dict_of_seq d es = Inr d' \<Longrightarrow>
   \<forall>p \<in> set d. clean (fst p) \<and> clean (snd p) \<Longrightarrow>
   \<forall>e \<in> set es. \<forall>w \<in> set e. clean w \<Longrightarrow>
   \<forall>p \<in> set d'. clean (fst p) \<and> clean (snd p)"
proof (induction d es rule: dict_of_seq.induct)
  case (1 d)
  then show ?case by simp
next
  case (2 d k v es)
  have "\<forall>p \<in> set (dict_setitem d k v). clean (fst p) \<and> clean (snd p)"
    using dict_setitem_subset[of d k v] "2.prems"(2,3) by fastforce
  with 2 show ?case by simp
qed simp_all

lemma parse_identifier_clean:
  assumes "parse_identifier s = Inr d"
  shows "\<forall>p \<in> set d. clean (fst p) \<and> clean (snd p)"
proof -
  have "\<forall>e \<in> set (map (split_chr CHR ''='') (split_chr CHR '','' s)). \<forall>w \<in> set e. clean w"
  proof (intro ballI)
    fix e w assume e: "e \<in> set (map (split_chr CHR ''='') (split_chr CHR '','' s))" and w: "w \<in> set e"
    then obtain seg where seg: "seg \<in> set (split_chr CHR '','' s)" and "e = split_chr CHR ''='' seg"
      by auto
    with w have "CHR ''='' \<notin> set w" and "set w \<subseteq> set seg" using split_chr_pieces by blast+
    moreover have "CHR '','' \<notin> set seg" using seg split_chr_pieces by blast
    ultimately show "clean w" by (auto simp: clean_def)
  qed
  with assms show ?thesis
    unfolding parse_identifier_def by (elim dict_of_seq_clean) simp_all
qed

lemma split_join:
  "ws \<noteq> [] \<Longrightarrow> \<forall>w \<in> set ws. c \<notin> set w \<Longrightarrow> split_chr c (join_str [c] ws) = ws"
proof (induction "[c]" ws rule: join_str.induct)
  case 1 then show ?case by simp
next
  case (2 w) then show ?case by (simp add: split_chr_notin)
next
  case (3 w v ws)
  then show ?case by (simp add: split_chr_append)
qed

lemma parse_render:
  assumes ne: "ps \<noteq> []" and d: "is_dict ps" and c: "\<forall>p \<in> set ps. clean (fst p) \<and> clean (snd p)"
  shows "parse_identifier (join_str '','' (map kv_str ps)) = Inr ps"
proof -
  have "\<forall>w \<in> set (map kv_str ps). CHR '','' \<notin> set w"
    using c by (auto simp: kv_str_def clean_def)
  then have s: "split_chr CHR '','' (join_str '','' (map kv_str ps)) = map kv_str ps"
    using ne split_join[of "map kv_str ps" "CHR '',''"] by simp
  have each: "\<forall>p \<in> set ps. split_chr CHR ''='' (kv_str p) = [fst p, snd p]"
  proof
    fix p assume "p \<in> set ps"
    with c have "CHR ''='' \<notin> set (fst p)" and "CHR ''='' \<notin> set (snd p)" by (auto simp: clean_def)
    then show "split_chr CHR ''='' (kv_str p) = [fst p, snd p]"
      using split_chr_append[of "CHR ''=''" "fst p" "snd p"]
      by (simp add: kv_str_def split_chr_notin)
  qed
  have m: "map (split_chr CHR ''='') (map kv_str ps) = map (\<lambda>p. [fst p, snd p]) ps"
    using each by simp
  have "distinct (map fst ([] @ ps))" using d by (simp add: is_dict_def)
  from dict_of_seq_distinct[OF this] show ?thesis
    unfolding parse_identifier_def s m by simp
qed

lemma insert_duplicate_rejected:
  assumes p: "parse_identifier ident = Inr d"
      and v: "is_valid_new_node_identifier t ident = Inr True"
      and l: "2 \<le> length d"
      and dup: "list_ex (\<lambda>n. NodeIdentifier_eq d (node_identifier n)) (preorder t)"
  shows "insert_node t nd ident u = Inr (t, False, ''A node with this identifier already exists.'')"
proof -
  have ne: "d \<noteq> []" and bne: "butlast d \<noteq> []" using l by (cases d; cases "tl d"; auto)+
  have "distinct (map fst d)" using parse_identifier_is_dict[OF p] by (simp add: is_dict_def)
  then have bd: "is_dict (butlast d)"
    by (simp add: is_dict_def map_butlast distinct_butlast)
  have bc: "\<forall>q \<in> set (butlast d). clean (fst q) \<and> clean (snd q)"
    using parse_identifier_clean[OF p] by (auto dest: in_set_butlastD)
  have pr: "parse_identifier (join_str '','' (map kv_str (butlast d))) = Inr (butlast d)"
    using bne bd bc by (rule parse_render)
  from dup obtain n where n: "n \<in> set (preorder t)" and e: "NodeIdentifier_eq d (node_identifier n)"
    by (auto simp: list_ex_iff)
  have "query_matches (butlast d) (node_identifier n)"
    using e by (auto simp: query_matches_def NodeIdentifier_eq_def list_all_iff dest: in_set_butlastD)
  with n have "search (butlast d) t \<noteq> None"
    by (auto simp: search_find_both find_None_iff)
  then obtain pth where sp: "search_path (butlast d) t = Some pth"
    using search_path_agrees(1)[of "butlast d" t] by (cases "search_path (butlast d) t") auto
  have f: "find_by_query_ref t (join_str '','' (map kv_str (butlast d))) = Inr (Some pth)"
    by (simp add: find_by_query_ref_def pr sp)
  have x: "list_ex (NodeIdentifier_eq d) (extract_node_identifiers t)"
    using n e by (auto simp: list_ex_iff extract_preorder)
  show ?thesis
    by (simp add: insert_node_def v p ne f x)
qed




text \<open>
  C1. Inserting an identifier that is already in the tree is meant to fail with
  "A node with this identifier already exists.", the root included: the scan of
  \<open>insert_node\<close> starts with the identifier of the root. For an identifier of two pairs
  or more this is what happens (\<open>insert_duplicate_rejected\<close>). For the identifier of a
  root of one pair the parent part is empty, the text \<open>""\<close> is what \<open>insert_node\<close> hands
  to the search, and parsing it raises \<open>ValueError\<close> before the duplicate test is
  reached.
\<close>

theorem insert_root_identifier_raises:
  "extract_node_identifiers (TreeNode 0 () [] [(''o'', ''root'')]) = [[(''o'', ''root'')]]
   \<and> parse_identifier ''o=root'' = Inr [(''o'', ''root'')]
   \<and> NodeIdentifier_eq [(''o'', ''root'')] [(''o'', ''root'')]
   \<and> insert_node (TreeNode 0 () [] [(''o'', ''root'')]) () ''o=root'' 1 = Inl ValueError"
  by (simp add: insert_node_def is_valid_new_node_identifier_def startswith_def parse_identifier_def
      find_by_query_ref_def NodeIdentifier_eq_def)

end
